theory Spec2Isabelle
  imports Complex_Main "HOL-Library.AList"
begin

section \<open>The counter of \<open>counter/counter.go\<close>\<close>

text \<open>
  The Go package keeps a sparse map from string keys to \<open>float64\<close> values together
  with a default value \<open>Base\<close> for the keys that are not stored.

  Modelling decisions, all read off the source:
  \<^item> A \<open>float64\<close> is a finite number, the negative zero, one of the two infinities
    or NaN. Go's \<open>==\<close>, \<open>>\<close>, \<open>+\<close>, \<open>-\<close>, \<open>*\<close> and \<open>/\<close> on floats are the functions \<open>feq\<close>,
    \<open>fgt\<close>, \<open>fadd\<close>, \<open>fsub\<close>, \<open>fmul\<close> and \<open>fdiv\<close>: NaN is \<open>==\<close> to nothing, the two zeros
    are \<open>==\<close>, and a division by a zero gives an infinity of the matching sign or NaN.
    Rounding, overflow and underflow are not modelled: a finite result is the exact
    real. The general properties below use no law of arithmetic, and the concrete
    inputs are small dyadic numbers, whose results are exact in \<open>float64\<close> too.
  \<^item> The Go map \<open>values\<close> (the field \<open>values_map\<close> here, \<open>values\<close> being a reserved
    word) is an association list whose order is the order in which
    \<open>range\<close> enumerates the map. Go leaves that order open, so the properties
    below are stated for an arbitrary list. A map has each key once: the lists
    that are maps are those with \<open>distinct (map fst (values_map c))\<close>.
    The statement \<open>m[k] = v\<close> overwrites the entry of \<open>k\<close> in place or adds a new
    entry at the end; the old deletion form \<open>m[k] = v, false\<close> removes the entry.
  \<^item> A \<open>range\<close> loop runs over the entries the map holds when the loop starts.
  \<^item> A method with receiver \<open>c *Counter\<close> that writes to \<open>c\<close> returns the updated
    counter. Functions that work on two counters through pointers take a heap of
    counters and two addresses, so that the two may be the same object.
\<close>

subsection \<open>Floating-point values\<close>

text \<open>\<open>Finite 0\<close> is the positive zero \<open>+0.0\<close> and \<open>NegZero\<close> is \<open>-0.0\<close>.\<close>

datatype float64 = Finite real | NegZero | PosInf | NegInf | NaN

fun rval :: "float64 \<Rightarrow> real" where
  "rval (Finite r) = r"
| "rval NegZero = 0"
| "rval PosInf = 0"
| "rval NegInf = 0"
| "rval NaN = 0"

fun sign_bit :: "float64 \<Rightarrow> bool" where
  "sign_bit (Finite r) = (r < 0)"
| "sign_bit NegZero = True"
| "sign_bit PosInf = False"
| "sign_bit NegInf = True"
| "sign_bit NaN = False"

fun level :: "float64 \<Rightarrow> int" where
  "level PosInf = 1"
| "level NegInf = - 1"
| "level (Finite r) = 0"
| "level NegZero = 0"
| "level NaN = 0"

definition is_zero :: "float64 \<Rightarrow> bool" where
  "is_zero x = (x = Finite 0 \<or> x = NegZero)"

definition is_inf :: "float64 \<Rightarrow> bool" where
  "is_inf x = (x = PosInf \<or> x = NegInf)"

definition zero_of :: "bool \<Rightarrow> float64" where
  "zero_of negative = (if negative then NegZero else Finite 0)"

definition inf_of :: "bool \<Rightarrow> float64" where
  "inf_of negative = (if negative then NegInf else PosInf)"

definition feq :: "float64 \<Rightarrow> float64 \<Rightarrow> bool" where
  "feq x y = (if x = NaN then False else if y = NaN then False
              else if is_zero x then is_zero y else x = y)"

definition fgt :: "float64 \<Rightarrow> float64 \<Rightarrow> bool" where
  "fgt x y = (if x = NaN then False else if y = NaN then False
              else if level x = level y then rval x > rval y else level x > level y)"

definition fadd :: "float64 \<Rightarrow> float64 \<Rightarrow> float64" where
  "fadd x y =
     (if x = NaN \<or> y = NaN then NaN
      else if is_inf x \<and> is_inf y then (if x = y then x else NaN)
      else if is_inf x then x
      else if is_inf y then y
      else if x = NegZero \<and> y = NegZero then NegZero
      else Finite (rval x + rval y))"

fun fneg :: "float64 \<Rightarrow> float64" where
  "fneg (Finite r) = (if r = 0 then NegZero else Finite (- r))"
| "fneg NegZero = Finite 0"
| "fneg PosInf = NegInf"
| "fneg NegInf = PosInf"
| "fneg NaN = NaN"

definition fsub :: "float64 \<Rightarrow> float64 \<Rightarrow> float64" where
  "fsub x y = fadd x (fneg y)"

definition fmul :: "float64 \<Rightarrow> float64 \<Rightarrow> float64" where
  "fmul x y =
     (if x = NaN \<or> y = NaN then NaN
      else if (is_inf x \<and> is_zero y) \<or> (is_zero x \<and> is_inf y) then NaN
      else if is_inf x \<or> is_inf y then inf_of (sign_bit x \<noteq> sign_bit y)
      else if is_zero x \<or> is_zero y then zero_of (sign_bit x \<noteq> sign_bit y)
      else Finite (rval x * rval y))"

definition fdiv :: "float64 \<Rightarrow> float64 \<Rightarrow> float64" where
  "fdiv x y =
     (if x = NaN \<or> y = NaN then NaN
      else if is_inf x \<and> is_inf y then NaN
      else if is_zero x \<and> is_zero y then NaN
      else if is_inf x then inf_of (sign_bit x \<noteq> sign_bit y)
      else if is_inf y then zero_of (sign_bit x \<noteq> sign_bit y)
      else if is_zero y then inf_of (sign_bit x \<noteq> sign_bit y)
      else if is_zero x then zero_of (sign_bit x \<noteq> sign_bit y)
      else Finite (rval x / rval y))"

subsection \<open>The counter\<close>

record Counter =
  values_map :: "(string \<times> float64) list"
  Base :: float64

definition New :: "float64 \<Rightarrow> Counter" where
  "New base = \<lparr>values_map = [], Base = base\<rparr>"

text \<open>\<open>Get\<close> reads \<open>c.values[k]\<close> and \<open>c.Base\<close> and assigns nothing.\<close>

definition Get :: "Counter \<Rightarrow> string \<Rightarrow> float64" where
  "Get c k = (case map_of (values_map c) k of Some v \<Rightarrow> v | None \<Rightarrow> Base c)"

text \<open>
  \<open>Set\<close> deletes the key when \<open>v == c.Base\<close>; there is no \<open>else\<close> and no \<open>return\<close>,
  so the assignment \<open>c.values[k] = v\<close> after the \<open>if\<close> runs on both paths.
\<close>

definition Set :: "Counter \<Rightarrow> string \<Rightarrow> float64 \<Rightarrow> Counter" where
  "Set c k v =
     (let c1 = (if feq v (Base c) then c\<lparr>values_map := AList.delete k (values_map c)\<rparr> else c)
      in c1\<lparr>values_map := AList.update k v (values_map c1)\<rparr>)"

definition Incr :: "Counter \<Rightarrow> string \<Rightarrow> Counter" where
  "Incr c k = (let v = Get c k in Set c k (fadd v (Finite 1)))"

text \<open>
  \<open>Keys\<close> skips every entry with \<open>v == c.Base\<close> and appends the key of every other
  entry.
\<close>

definition Keys :: "Counter \<Rightarrow> string list" where
  "Keys c =
     fold (\<lambda>(k, v) result. if feq v (Base c) then result else result @ [k]) (values_map c) []"

text \<open>
  \<open>mergeKeys\<close> sends its keys over an unbuffered channel from one goroutine to the
  one consumer that ranges over the channel until it is closed; the producer reads
  only the two slices and its own \<open>seen\<close>. The consumer therefore receives one fixed
  sequence, which is what the model computes. \<open>seen\<close> is a \<open>map[string]bool\<close>, read
  as \<open>false\<close> at a missing key; the second loop does not write to it.
\<close>

definition mergeKeys :: "string list \<Rightarrow> string list \<Rightarrow> string list" where
  "mergeKeys a b =
     (let (out1, seen) =
            fold (\<lambda>k (out, seen). (out @ [k], seen(k := True))) a ([], \<lambda>_. False)
      in fold (\<lambda>k out. if \<not> seen k then out @ [k] else out) b out1)"

subsection \<open>Two counters behind pointers\<close>

text \<open>
  A heap is the list of the counters allocated so far and a \<open>*Counter\<close> is an index
  into it. The function \<open>operate\<close> puts the counter that \<open>New\<close> returns at the next free
  address \<open>result\<close> and writes only there.
\<close>

type_synonym heap = "Counter list"

definition operate ::
  "nat \<Rightarrow> nat \<Rightarrow> (float64 \<Rightarrow> float64 \<Rightarrow> float64)
     \<Rightarrow> (string list \<Rightarrow> string list \<Rightarrow> string list) \<Rightarrow> heap \<Rightarrow> nat \<times> heap" where
  "operate a b op keys h =
     (let result = length h;
          h1 = h @ [New (op (Base (h ! a)) (Base (h ! b)))]
      in (result,
          fold (\<lambda>k h'. h'[result := Set (h' ! result) k (op (Get (h' ! a) k) (Get (h' ! b) k))])
            (keys (Keys (h1 ! a)) (Keys (h1 ! b))) h1))"

definition Add :: "nat \<Rightarrow> nat \<Rightarrow> heap \<Rightarrow> nat \<times> heap" where
  "Add a b = operate a b (\<lambda>a b. fadd a b) mergeKeys"

definition Subtract :: "nat \<Rightarrow> nat \<Rightarrow> heap \<Rightarrow> nat \<times> heap" where
  "Subtract a b = operate a b (\<lambda>a b. fsub a b) mergeKeys"

definition Multiply :: "nat \<Rightarrow> nat \<Rightarrow> heap \<Rightarrow> nat \<times> heap" where
  "Multiply a b = operate a b (\<lambda>a b. fmul a b) mergeKeys"

definition Divide :: "nat \<Rightarrow> nat \<Rightarrow> heap \<Rightarrow> nat \<times> heap" where
  "Divide a b = operate a b (\<lambda>a b. fdiv a b) mergeKeys"

text \<open>
  The method \<open>(a *Counter) operate\<close> assigns \<open>a.Base\<close> first; \<open>a.Keys()\<close>, \<open>a.Get(k)\<close>
  and, when \<open>b\<close> is the same object, \<open>b.Get(k)\<close> are evaluated after that assignment.
\<close>

definition Counter_operate ::
  "nat \<Rightarrow> nat \<Rightarrow> (float64 \<Rightarrow> float64 \<Rightarrow> float64)
     \<Rightarrow> (string list \<Rightarrow> string list \<Rightarrow> string list) \<Rightarrow> heap \<Rightarrow> heap" where
  "Counter_operate a b op keys h =
     (let h1 = h[a := (h ! a)\<lparr>Base := op (Base (h ! a)) (Base (h ! b))\<rparr>]
      in fold (\<lambda>k h'. h'[a := Set (h' ! a) k (op (Get (h' ! a) k) (Get (h' ! b) k))])
           (keys (Keys (h1 ! a)) (Keys (h1 ! b))) h1)"

definition Counter_Add :: "nat \<Rightarrow> nat \<Rightarrow> heap \<Rightarrow> heap" where
  "Counter_Add c o' = Counter_operate c o' (\<lambda>a b. fadd a b) mergeKeys"

definition Counter_Subtract :: "nat \<Rightarrow> nat \<Rightarrow> heap \<Rightarrow> heap" where
  "Counter_Subtract c o' = Counter_operate c o' (\<lambda>a b. fsub a b) mergeKeys"

definition Counter_Multiply :: "nat \<Rightarrow> nat \<Rightarrow> heap \<Rightarrow> heap" where
  "Counter_Multiply c o' = Counter_operate c o' (\<lambda>a b. fmul a b) mergeKeys"

definition Counter_Divide :: "nat \<Rightarrow> nat \<Rightarrow> heap \<Rightarrow> heap" where
  "Counter_Divide c o' = Counter_operate c o' (\<lambda>a b. fdiv a b) mergeKeys"

subsection \<open>Traversals\<close>

text \<open>
  \<open>Apply\<close> hands its callback a \<open>*string\<close>: \<open>nil\<close> for the default value and \<open>&k\<close> for
  an entry, where \<open>k\<close> is the iteration variable of the \<open>range\<close> loop. The source is
  written in the Go of before version 1 (it deletes with \<open>m[k] = v, false\<close>), where
  the iteration variables of a \<open>range\<close> clause are re-used in each iteration, so
  \<open>&k\<close> is one address for the whole loop. The callback may be a closure that
  assigns to captured variables; they are the state \<open>'s\<close> that is threaded through
  the calls. No callback of the package reads through the pointer while it runs,
  so the callback is given the pointer and not the string behind it. Besides the
  counter and that state, the model returns what the variable \<open>k\<close> holds when the
  loop is over (the empty string, Go's zero value, when the body never ran).
\<close>

datatype keyptr = NilKey | AddrOfK

definition Apply ::
  "(keyptr \<Rightarrow> float64 \<Rightarrow> 's \<Rightarrow> float64 \<times> 's) \<Rightarrow> Counter \<Rightarrow> 's
     \<Rightarrow> Counter \<times> 's \<times> string" where
  "Apply op c s =
     (let (base', s1) = op NilKey (Base c) s;
          c1 = c\<lparr>Base := base'\<rparr>
      in fold (\<lambda>(k, v) (c', s', kvar).
                 let (r, s'') = op AddrOfK v s' in (Set c' k r, s'', k))
           (values_map c1) (c1, s1, ''''))"

definition reduce :: "Counter \<Rightarrow> float64 \<Rightarrow> (float64 \<Rightarrow> float64 \<Rightarrow> float64) \<Rightarrow> float64" where
  "reduce c base op = fold (\<lambda>(k, v) val. op val v) (values_map c) base"

text \<open>
  \<open>ArgMax\<close> ends with \<open>*maxKey\<close>. Dereferencing \<open>nil\<close> is a run-time panic;
  dereferencing \<open>&k\<close> reads what the iteration variable holds at that moment.
  The captured variables \<open>maxKey\<close> and \<open>maxVal\<close> start as \<open>nil\<close> and \<open>0.0\<close>. The second
  component of the result is the counter as \<open>Apply\<close> leaves it.
\<close>

datatype panic = NilDereference

definition ArgMax_closure ::
  "keyptr \<Rightarrow> float64 \<Rightarrow> keyptr \<times> float64 \<Rightarrow> float64 \<times> (keyptr \<times> float64)" where
  "ArgMax_closure key val = (\<lambda>(maxKey, maxVal).
     if fgt val maxVal \<or> maxKey = NilKey then (val, (key, val)) else (val, (maxKey, maxVal)))"

definition ArgMax :: "Counter \<Rightarrow> (panic + string \<times> float64) \<times> Counter" where
  "ArgMax c =
     (let (c', (maxKey, maxVal), kvar) = Apply ArgMax_closure c (NilKey, Finite 0)
      in (case maxKey of
            NilKey \<Rightarrow> Inl NilDereference
          | AddrOfK \<Rightarrow> Inr (kvar, maxVal),
          c'))"

definition Sum :: "Counter \<Rightarrow> float64" where
  "Sum c = reduce c (Base c) (\<lambda>a b. fadd a b)"

definition Normalize :: "Counter \<Rightarrow> Counter" where
  "Normalize c =
     (let sum = reduce c (Finite 0) (\<lambda>a b. fadd a b)
      in fst (Apply (\<lambda>s a u. (fdiv a sum, u)) c ()))"

section \<open>Properties\<close>

subsection \<open>Floating-point values\<close>

lemmas float_defs =
  feq_def fgt_def fadd_def fsub_def fmul_def fdiv_def is_zero_def is_inf_def zero_of_def inf_of_def


lemma feq_NaN: "\<not> feq NaN v" "\<not> feq v NaN"
  by (simp_all add: feq_def)

lemma feq_zeros: "feq NegZero (Finite 0)" "feq (Finite 0) NegZero"
  by (simp_all add: feq_def is_zero_def)

subsection \<open>Access: \<open>Get\<close>, \<open>Set\<close>, \<open>Keys\<close>\<close>

lemma New_simps: "values_map (New b) = []" "Base (New b) = b"
  by (simp_all add: New_def)

lemma map_of_Set: "map_of (values_map (Set c k v)) = (map_of (values_map c))(k \<mapsto> v)"
  by (simp add: Set_def Let_def update_conv' delete_conv')

lemma Base_Set: "Base (Set c k v) = Base c"
  by (simp add: Set_def Let_def)

lemma distinct_Set:
  "distinct (map fst (values_map c)) \<Longrightarrow> distinct (map fst (values_map (Set c k v)))"
  by (simp add: Set_def Let_def distinct_update distinct_delete)

lemma Get_Set_same: "Get (Set c k v) k = v"
  by (simp add: Get_def map_of_Set)

lemma Get_Set_other: "k' \<noteq> k \<Longrightarrow> Get (Set c k v) k' = Get c k'"
  by (simp add: Get_def map_of_Set Base_Set split: option.splits)



lemma Keys_fold_acc:
  "fold (\<lambda>(k, v) result. if p v then result else result @ [k]) es acc =
     acc @ map fst (filter (\<lambda>(k, v). \<not> p v) es)"
  by (induction es arbitrary: acc) (auto split: prod.splits)

lemma Keys_filter:
  "Keys c = map fst (filter (\<lambda>(k, v). \<not> feq v (Base c)) (values_map c))"
  by (simp add: Keys_def Keys_fold_acc)

lemma set_Keys:
  "set (Keys c) = {k. \<exists>v. (k, v) \<in> set (values_map c) \<and> \<not> feq v (Base c)}"
  by (force simp: Keys_filter)

lemma distinct_Keys: "distinct (map fst (values_map c)) \<Longrightarrow> distinct (Keys c)"
  by (simp add: Keys_filter distinct_map_filter)

text \<open>
  A key that \<open>Keys\<close> does not list reads as the base itself or as a stored value
  that is \<open>==\<close> to the base: a zero of the other sign.
\<close>

lemma Get_outside_Keys:
  "k \<notin> set (Keys c) \<Longrightarrow> Get c k = Base c \<or> feq (Get c k) (Base c)"
  by (auto simp: set_Keys Get_def split: option.splits dest: map_of_SomeD)

lemma fold_Set_pairs:
  "map_of (values_map (fold (\<lambda>(k, v) c. Set c k v) kvs c)) =
     map_of (values_map c) ++ map_of (rev kvs)"
  by (induction kvs arbitrary: c)
    (auto simp: map_of_Set map_add_def fun_eq_iff split: option.splits)

lemma Base_fold_Set_pairs: "Base (fold (\<lambda>(k, v) c. Set c k v) kvs c) = Base c"
  by (induction kvs arbitrary: c) (auto simp: Base_Set)

text \<open>
  C1. The claim: no stored entry's value equals the counter's base, and \<open>set(k, v)\<close>
  with \<open>v\<close> equal to the base removes \<open>k\<close> and does not store it. The source deletes
  the key (its comment says \<open>remove the key\<close>) and then falls through to the
  assignment that stores it again: on the empty counter with base \<open>0\<close>, after
  \<open>Set("k", 0)\<close> the storage holds the entry \<open>("k", 0)\<close>, whose value is the base.
\<close>

theorem Set_base_is_stored:
  "values_map (Set (New (Finite 0)) ''k'' (Finite 0)) = [(''k'', Finite 0)] \<and>
   Base (Set (New (Finite 0)) ''k'' (Finite 0)) = Finite 0"
  by (simp add: Set_def New_def AList.delete_eq)





text \<open>
  C8. \<open>Get(k)\<close> returns the stored value of \<open>k\<close> when there is one and \<open>c.Base\<close>
  otherwise. In particular, on a counter made by \<open>New(b)\<close> and any sequence of
  \<open>Set\<close> calls, \<open>Get(k)\<close> is \<open>b\<close> for a key that was never set, and the value of the last
  \<open>Set\<close> of \<open>k\<close> otherwise. \<open>Get\<close> is a total function of the counter that returns
  only the value: the source has no assignment and no failing operation in it.
\<close>

theorem Get_stored_or_base:
  "(k \<notin> fst ` set (values_map c) \<longrightarrow> Get c k = Base c) \<and>
   (distinct (map fst (values_map c)) \<longrightarrow> (k, v) \<in> set (values_map c) \<longrightarrow> Get c k = v) \<and>
   Get (fold (\<lambda>(k, v) c. Set c k v) kvs (New b)) k =
     (case map_of (rev kvs) k of Some v \<Rightarrow> v | None \<Rightarrow> b)"
proof (intro conjI impI)
  assume "k \<notin> fst ` set (values_map c)"
  then have "map_of (values_map c) k = None"
    by (simp add: map_of_eq_None_iff)
  then show "Get c k = Base c"
    by (simp add: Get_def)
next
  assume "distinct (map fst (values_map c))" and "(k, v) \<in> set (values_map c)"
  then have "map_of (values_map c) k = Some v"
    by simp
  then show "Get c k = v"
    by (simp add: Get_def)
next
  show "Get (fold (\<lambda>(k, v) c. Set c k v) kvs (New b)) k =
     (case map_of (rev kvs) k of Some v \<Rightarrow> v | None \<Rightarrow> b)"
    by (simp add: Get_def fold_Set_pairs Base_fold_Set_pairs New_def map_add_def
        split: option.splits)
qed

theorem Get_stored_or_base_witness:
  "''y'' \<notin> fst ` set (values_map \<lparr>values_map = [(''x'', Finite 2)], Base = Finite 1\<rparr>) \<and>
   Get \<lparr>values_map = [(''x'', Finite 2)], Base = Finite 1\<rparr> ''y'' = Finite 1 \<and>
   distinct (map fst (values_map \<lparr>values_map = [(''x'', Finite 2)], Base = Finite 1\<rparr>)) \<and>
   (''x'', Finite 2) \<in> set (values_map \<lparr>values_map = [(''x'', Finite 2)], Base = Finite 1\<rparr>) \<and>
   Get \<lparr>values_map = [(''x'', Finite 2)], Base = Finite 1\<rparr> ''x'' = Finite 2 \<and>
   Get (fold (\<lambda>(k, v) c. Set c k v) [(''x'', Finite 2), (''x'', Finite 3)] (New (Finite 1)))
     ''x'' = Finite 3 \<and>
   Get (fold (\<lambda>(k, v) c. Set c k v) [(''x'', Finite 2), (''x'', Finite 3)] (New (Finite 1)))
     ''y'' = Finite 1"
  using Get_stored_or_base [of "''y''" "\<lparr>values_map = [(''x'', Finite 2)], Base = Finite 1\<rparr>"
      "Finite 0" "[(''x'', Finite 2), (''x'', Finite 3)]" "Finite 1"]
    Get_stored_or_base [of "''x''" "\<lparr>values_map = [(''x'', Finite 2)], Base = Finite 1\<rparr>"
      "Finite 2" "[(''x'', Finite 2), (''x'', Finite 3)]" "Finite 1"]
  by simp

subsection \<open>The key merge\<close>

lemma mergeKeys_first_loop:
  "fold (\<lambda>k (out, seen). (out @ [k], seen(k := True))) a (out0, seen0) =
     (out0 @ a, \<lambda>k. seen0 k \<or> k \<in> set a)"
  by (induction a arbitrary: out0 seen0) (auto simp: fun_eq_iff)

lemma mergeKeys_second_loop:
  "fold (\<lambda>k out. if \<not> seen k then out @ [k] else out) b out1 =
     out1 @ filter (\<lambda>k. \<not> seen k) b"
  by (induction b arbitrary: out1) auto

lemma mergeKeys_append: "mergeKeys a b = a @ filter (\<lambda>k. k \<notin> set a) b"
  by (simp add: mergeKeys_def mergeKeys_first_loop mergeKeys_second_loop)

lemma set_mergeKeys: "set (mergeKeys a b) = set a \<union> set b"
  by (auto simp: mergeKeys_append)

lemma distinct_mergeKeys_Keys:
  "distinct (map fst (values_map ca)) \<Longrightarrow> distinct (map fst (values_map cb)) \<Longrightarrow>
   distinct (mergeKeys (Keys ca) (Keys cb))"
  by (auto simp: mergeKeys_append distinct_Keys)

text \<open>
  C7. The key merge emits all of \<open>a\<close>'s keys first, in \<open>a\<close>'s order, followed by
  those keys of \<open>b\<close> that are not keys of \<open>a\<close>; what it emits is exactly the union of
  the two key sets; and no key is emitted twice. The key sequences of the claim are
  enumerations of the keys of a map, so each of them has every key once: that is
  the premise of the third part, and the fourth part says it for the sequences
  that the binary operations pass, \<open>a.Keys()\<close> and \<open>b.Keys()\<close> of two counters.
\<close>

theorem mergeKeys_union:
  "mergeKeys a b = a @ filter (\<lambda>k. k \<notin> set a) b \<and>
   set (mergeKeys a b) = set a \<union> set b \<and>
   (distinct a \<longrightarrow> distinct b \<longrightarrow> distinct (mergeKeys a b)) \<and>
   (distinct (map fst (values_map ca)) \<longrightarrow> distinct (map fst (values_map cb)) \<longrightarrow>
      distinct (mergeKeys (Keys ca) (Keys cb)))"
  by (auto simp: mergeKeys_append distinct_Keys)

theorem mergeKeys_union_witness:
  "distinct [''x'', ''z''] \<and> distinct [''y'', ''x'', ''w''] \<and>
   mergeKeys [''x'', ''z''] [''y'', ''x'', ''w''] = [''x'', ''z'', ''y'', ''w''] \<and>
   distinct (mergeKeys [''x'', ''z''] [''y'', ''x'', ''w'']) \<and>
   distinct (map fst (values_map
     \<lparr>values_map = [(''x'', Finite 1), (''z'', Finite 2)], Base = Finite 0\<rparr>)) \<and>
   distinct (map fst (values_map
     \<lparr>values_map = [(''y'', Finite 3), (''x'', Finite 4)], Base = Finite 0\<rparr>)) \<and>
   distinct (mergeKeys
     (Keys \<lparr>values_map = [(''x'', Finite 1), (''z'', Finite 2)], Base = Finite 0\<rparr>)
     (Keys \<lparr>values_map = [(''y'', Finite 3), (''x'', Finite 4)], Base = Finite 0\<rparr>))"
  using mergeKeys_union [of "[''x'', ''z'']" "[''y'', ''x'', ''w'']"
      "\<lparr>values_map = [(''x'', Finite 1), (''z'', Finite 2)], Base = Finite 0\<rparr>"
      "\<lparr>values_map = [(''y'', Finite 3), (''x'', Finite 4)], Base = Finite 0\<rparr>"]
  by simp

subsection \<open>The pure binary operations\<close>

lemma operate_loop:
  "r < length h1 \<Longrightarrow> a \<noteq> r \<Longrightarrow> b \<noteq> r \<Longrightarrow>
   fold (\<lambda>k h'. h'[r := Set (h' ! r) k (op (Get (h' ! a) k) (Get (h' ! b) k))]) ks h1 =
     h1[r := fold (\<lambda>k c. Set c k (op (Get (h1 ! a) k) (Get (h1 ! b) k))) ks (h1 ! r)]"
proof (induction ks arbitrary: h1)
  case Nil
  then show ?case by simp
next
  case (Cons k ks)
  let ?h2 = "h1[r := Set (h1 ! r) k (op (Get (h1 ! a) k) (Get (h1 ! b) k))]"
  have "r < length ?h2" using Cons.prems by simp
  from Cons.IH [OF this Cons.prems(2,3)] Cons.prems show ?case
    by simp
qed

lemma fold_Set_keys_map_of:
  "map_of (values_map (fold (\<lambda>k c. Set c k (f k)) ks c)) k =
     (if k \<in> set ks then Some (f k) else map_of (values_map c) k)"
  by (induction ks arbitrary: c) (auto simp: map_of_Set)

lemma fold_Set_keys_Base: "Base (fold (\<lambda>k c. Set c k (f k)) ks c) = Base c"
  by (induction ks arbitrary: c) (auto simp: Base_Set)

lemma operate_result:
  assumes a: "a < length h" and b: "b < length h"
  shows "operate a b op mergeKeys h =
     (length h,
      h @ [fold (\<lambda>k c. Set c k (op (Get (h ! a) k) (Get (h ! b) k)))
             (mergeKeys (Keys (h ! a)) (Keys (h ! b))) (New (op (Base (h ! a)) (Base (h ! b))))])"
proof -
  let ?n = "New (op (Base (h ! a)) (Base (h ! b)))"
  let ?h1 = "h @ [?n]"
  have r: "length h < length ?h1" by simp
  have ne: "a \<noteq> length h" "b \<noteq> length h" using a b by simp_all
  have rd: "?h1 ! a = h ! a" "?h1 ! b = h ! b" "?h1 ! length h = ?n"
    using a b by (simp_all add: nth_append)
  show ?thesis
    unfolding operate_def Let_def operate_loop [OF r ne] rd
    by simp
qed

lemma operate_Get_merged:
  "k \<in> set (mergeKeys (Keys ca) (Keys cb)) \<Longrightarrow>
   Get (fold (\<lambda>k c. Set c k (op (Get ca k) (Get cb k)))
          (mergeKeys (Keys ca) (Keys cb)) (New (op (Base ca) (Base cb)))) k =
     op (Get ca k) (Get cb k)"
  by (simp add: Get_def [of "fold _ _ _"] fold_Set_keys_map_of)

lemma operate_Get_other:
  "k \<notin> set (mergeKeys (Keys ca) (Keys cb)) \<Longrightarrow>
   Get (fold (\<lambda>k c. Set c k (op (Get ca k) (Get cb k)))
          (mergeKeys (Keys ca) (Keys cb)) (New (op (Base ca) (Base cb)))) k =
     op (Base ca) (Base cb)"
  by (simp add: Get_def [of "fold _ _ _"] fold_Set_keys_map_of fold_Set_keys_Base New_simps)

lemma operate_Get_plain:
  assumes "Get ca k = Base ca \<or> \<not> feq (Get ca k) (Base ca)"
    and "Get cb k = Base cb \<or> \<not> feq (Get cb k) (Base cb)"
  shows "Get (fold (\<lambda>k c. Set c k (op (Get ca k) (Get cb k)))
          (mergeKeys (Keys ca) (Keys cb)) (New (op (Base ca) (Base cb)))) k =
     op (Get ca k) (Get cb k)"
proof (cases "k \<in> set (mergeKeys (Keys ca) (Keys cb))")
  case True
  then show ?thesis by (rule operate_Get_merged)
next
  case False
  then have "k \<notin> set (Keys ca)" "k \<notin> set (Keys cb)"
    by (simp_all add: set_mergeKeys)
  then have "Get ca k = Base ca" "Get cb k = Base cb"
    using assms Get_outside_Keys [of k ca] Get_outside_Keys [of k cb] by blast+
  with operate_Get_other [OF False, of op] show ?thesis
    by simp
qed

lemma Add_Get:
  "a < length h \<Longrightarrow> b < length h \<Longrightarrow> k \<in> set (Keys (h ! a)) \<union> set (Keys (h ! b)) \<Longrightarrow>
   Get (snd (Add a b h) ! fst (Add a b h)) k = fadd (Get (h ! a) k) (Get (h ! b) k)"
  by (simp add: Add_def operate_result operate_Get_merged set_mergeKeys)

lemma Subtract_Get:
  "a < length h \<Longrightarrow> b < length h \<Longrightarrow> k \<in> set (Keys (h ! a)) \<union> set (Keys (h ! b)) \<Longrightarrow>
   Get (snd (Subtract a b h) ! fst (Subtract a b h)) k = fsub (Get (h ! a) k) (Get (h ! b) k)"
  by (simp add: Subtract_def operate_result operate_Get_merged set_mergeKeys)

lemma Multiply_Get:
  "a < length h \<Longrightarrow> b < length h \<Longrightarrow> k \<in> set (Keys (h ! a)) \<union> set (Keys (h ! b)) \<Longrightarrow>
   Get (snd (Multiply a b h) ! fst (Multiply a b h)) k = fmul (Get (h ! a) k) (Get (h ! b) k)"
  by (simp add: Multiply_def operate_result operate_Get_merged set_mergeKeys)

lemma Divide_Get:
  "a < length h \<Longrightarrow> b < length h \<Longrightarrow> k \<in> set (Keys (h ! a)) \<union> set (Keys (h ! b)) \<Longrightarrow>
   Get (snd (Divide a b h) ! fst (Divide a b h)) k = fdiv (Get (h ! a) k) (Get (h ! b) k)"
  by (simp add: Divide_def operate_result operate_Get_merged set_mergeKeys)




subsection \<open>The in-place binary operations\<close>

lemma Counter_operate_loop:
  "a < length h1 \<Longrightarrow> a \<noteq> b \<Longrightarrow>
   fold (\<lambda>k h'. h'[a := Set (h' ! a) k (op (Get (h' ! a) k) (Get (h' ! b) k))]) ks h1 =
     h1[a := fold (\<lambda>k c. Set c k (op (Get c k) (Get (h1 ! b) k))) ks (h1 ! a)]"
proof (induction ks arbitrary: h1)
  case Nil
  then show ?case by simp
next
  case (Cons k ks)
  let ?h2 = "h1[a := Set (h1 ! a) k (op (Get (h1 ! a) k) (Get (h1 ! b) k))]"
  have "a < length ?h2" using Cons.prems by simp
  from Cons.IH [OF this Cons.prems(2)] Cons.prems show ?case
    by simp
qed

lemma fold_Set_self_Base: "Base (fold (\<lambda>k c. Set c k (op (Get c k) (g k))) ks c) = Base c"
  by (induction ks arbitrary: c) (auto simp: Base_Set)

lemma fold_Set_self_Get:
  "distinct ks \<Longrightarrow>
   Get (fold (\<lambda>k c. Set c k (op (Get c k) (g k))) ks c) k =
     (if k \<in> set ks then op (Get c k) (g k) else Get c k)"
proof (induction ks arbitrary: c)
  case Nil
  then show ?case by simp
next
  case (Cons k0 ks)
  then show ?case
    by (cases "k = k0") (auto simp: Get_Set_same Get_Set_other)
qed

lemma Counter_operate_result:
  assumes "a < length h" and "a \<noteq> b"
  shows "Counter_operate a b op mergeKeys h =
    h[a := fold (\<lambda>k c. Set c k (op (Get c k) (Get (h ! b) k)))
             (mergeKeys (Keys ((h ! a)\<lparr>Base := op (Base (h ! a)) (Base (h ! b))\<rparr>)) (Keys (h ! b)))
             ((h ! a)\<lparr>Base := op (Base (h ! a)) (Base (h ! b))\<rparr>)]"
proof -
  let ?a1 = "(h ! a)\<lparr>Base := op (Base (h ! a)) (Base (h ! b))\<rparr>"
  let ?h1 = "h[a := ?a1]"
  have l: "a < length ?h1" using assms by simp
  have rd: "?h1 ! a = ?a1" "?h1 ! b = h ! b"
    using assms by simp_all
  show ?thesis
    unfolding Counter_operate_def Let_def Counter_operate_loop [OF l assms(2)] rd
    by simp
qed

text \<open>
  What the method computes for two different objects: with \<open>a1\<close> the counter \<open>a\<close>
  after the assignment to its base, every merged key gets \<open>op(a1.Get(k), b.Get(k))\<close>
  and every other key reads as in \<open>a1\<close>.
\<close>

lemma Counter_operate_Get:
  assumes "a < length h" and "a \<noteq> b"
    and "distinct (map fst (values_map (h ! a)))" and "distinct (map fst (values_map (h ! b)))"
    and "a1 = (h ! a)\<lparr>Base := op (Base (h ! a)) (Base (h ! b))\<rparr>"
  shows "Counter_operate a b op mergeKeys h ! b = h ! b"
    and "Base (Counter_operate a b op mergeKeys h ! a) = op (Base (h ! a)) (Base (h ! b))"
    and "Get (Counter_operate a b op mergeKeys h ! a) k =
      (if k \<in> set (Keys a1) \<union> set (Keys (h ! b)) then op (Get a1 k) (Get (h ! b) k)
       else Get a1 k)"
proof -
  have d: "distinct (mergeKeys (Keys a1) (Keys (h ! b)))"
    using assms(3,4) by (simp add: distinct_mergeKeys_Keys assms(5))
  show "Counter_operate a b op mergeKeys h ! b = h ! b"
    using assms(1,2) by (simp add: Counter_operate_result)
  show "Base (Counter_operate a b op mergeKeys h ! a) = op (Base (h ! a)) (Base (h ! b))"
    using assms(1,2) by (simp add: Counter_operate_result fold_Set_self_Base)
  show "Get (Counter_operate a b op mergeKeys h ! a) k =
      (if k \<in> set (Keys a1) \<union> set (Keys (h ! b)) then op (Get a1 k) (Get (h ! b) k)
       else Get a1 k)"
    using assms(1,2) d
    by (simp add: Counter_operate_result fold_Set_self_Get set_mergeKeys
        flip: assms(5))
qed

text \<open>
  When the operation leaves the base of \<open>a\<close> as it is, the method and the function
  agree at every key where neither counter stores a value that is \<open>==\<close> to its base
  without being the base.
\<close>

lemma Counter_operate_same_base:
  assumes "a < length h" and "b < length h" and "a \<noteq> b"
    and "distinct (map fst (values_map (h ! a)))" and "distinct (map fst (values_map (h ! b)))"
    and "op (Base (h ! a)) (Base (h ! b)) = Base (h ! a)"
    and ha: "Get (h ! a) k = Base (h ! a) \<or> \<not> feq (Get (h ! a) k) (Base (h ! a))"
    and hb: "Get (h ! b) k = Base (h ! b) \<or> \<not> feq (Get (h ! b) k) (Base (h ! b))"
  shows "Get (Counter_operate a b op mergeKeys h ! a) k =
     Get (snd (operate a b op mergeKeys h) ! fst (operate a b op mergeKeys h)) k"
proof -
  have a1: "h ! a = (h ! a)\<lparr>Base := op (Base (h ! a)) (Base (h ! b))\<rparr>"
    by (simp add: assms(6))
  have inplace: "Get (Counter_operate a b op mergeKeys h ! a) k =
      (if k \<in> set (Keys (h ! a)) \<union> set (Keys (h ! b))
       then op (Get (h ! a) k) (Get (h ! b) k) else Get (h ! a) k)"
    by (rule Counter_operate_Get(3) [where op = op and ?a1.0 = "h ! a", OF assms(1,3,4,5) a1])
  have pure: "Get (snd (operate a b op mergeKeys h) ! fst (operate a b op mergeKeys h)) k =
      op (Get (h ! a) k) (Get (h ! b) k)"
    using assms(1,2) by (simp add: operate_result operate_Get_plain [OF ha hb])
  show ?thesis
  proof (cases "k \<in> set (Keys (h ! a)) \<union> set (Keys (h ! b))")
    case True
    with inplace pure show ?thesis by simp
  next
    case False
    then have "Get (h ! a) k = Base (h ! a)" "Get (h ! b) k = Base (h ! b)"
      using ha hb Get_outside_Keys [of k "h ! a"] Get_outside_Keys [of k "h ! b"] by auto
    with False inplace pure assms(6) show ?thesis by simp
  qed
qed

text \<open>
  C2. The claim: for each operator the in-place form leaves \<open>a\<close> in the state of the
  counter that the pure form returns, its keys being enumerated before any change
  to \<open>a\<close>. The method assigns \<open>a.Base\<close> before it calls \<open>a.Keys()\<close> and \<open>a.Get(k)\<close>, so
  both see the new base. With \<open>a\<close> fresh from \<open>New(1)\<close> and \<open>b\<close> fresh from \<open>New(2)\<close>
  followed by \<open>Set("x", 5)\<close>, the function \<open>Add(a, b)\<close> returns a counter whose
  \<open>Get("x")\<close> is \<open>1 + 5\<close>, while after \<open>a.Add(b)\<close> the value of \<open>a.Get("x")\<close> is \<open>3 + 5\<close>
  (\<open>b\<close> is unchanged by either).
\<close>

theorem Counter_Add_differs_from_Add:
  "Get (snd (Add 0 1 [New (Finite 1), Set (New (Finite 2)) ''x'' (Finite 5)]) !
         fst (Add 0 1 [New (Finite 1), Set (New (Finite 2)) ''x'' (Finite 5)])) ''x'' =
     Finite 6 \<and>
   Get (Counter_Add 0 1 [New (Finite 1), Set (New (Finite 2)) ''x'' (Finite 5)] ! 0) ''x'' =
     Finite 8 \<and>
   Counter_Add 0 1 [New (Finite 1), Set (New (Finite 2)) ''x'' (Finite 5)] ! 1 =
     Set (New (Finite 2)) ''x'' (Finite 5)"
  by (simp add: Add_def operate_def Counter_Add_def Counter_operate_def New_def Set_def
      Keys_def mergeKeys_def Get_def AList.delete_eq float_defs)

subsection \<open>\<open>Apply\<close> with a callback that keeps no state\<close>

lemma Apply_loop_pure:
  "fst (fold (\<lambda>(k, v) (c', s', kvar). (Set c' k (f v), s', k)) es (c0, u, kv)) =
     fold (\<lambda>(k, v) c'. Set c' k (f v)) es c0"
  by (induction es arbitrary: c0 u kv) (auto split: prod.splits)

lemma Apply_pure:
  "fst (Apply (\<lambda>s a u. (f a, u)) c u0) =
     fold (\<lambda>(k, v) c'. Set c' k (f v)) (values_map c) (c\<lparr>Base := f (Base c)\<rparr>)"
  by (simp add: Apply_def Apply_loop_pure)

lemma fold_Set_entries_map_of:
  "distinct (map fst es) \<Longrightarrow>
   map_of (values_map (fold (\<lambda>(k, v) c'. Set c' k (f v)) es c0)) k =
     (case map_of es k of Some v \<Rightarrow> Some (f v) | None \<Rightarrow> map_of (values_map c0) k)"
proof (induction es arbitrary: c0)
  case Nil
  then show ?case by simp
next
  case (Cons e es)
  obtain k' v' where e: "e = (k', v')" by (cases e)
  from Cons.prems e have d: "distinct (map fst es)" and n: "k' \<notin> fst ` set es"
    by auto
  from n have "map_of es k' = None"
    by (simp add: map_of_eq_None_iff)
  with Cons.IH [OF d, of "Set c0 k' (f v')"] e show ?case
    by (auto simp: map_of_Set split: option.splits)
qed

lemma fold_Set_entries_Base: "Base (fold (\<lambda>(k, v) c'. Set c' k (f v)) es c0) = Base c0"
  by (induction es arbitrary: c0) (auto simp: Base_Set)

lemma fold_Set_entries_distinct:
  "distinct (map fst (values_map c0)) \<Longrightarrow>
   distinct (map fst (values_map (fold (\<lambda>(k, v) c'. Set c' k (f v)) es c0)))"
  by (induction es arbitrary: c0) (auto simp: distinct_Set)

subsection \<open>Reduction and normalisation\<close>

lemma reduce_foldl: "reduce c s op = foldl op s (map snd (values_map c))"
  unfolding reduce_def
  by (induction "values_map c" arbitrary: s c)
    (auto simp: foldl_map fold_map foldl_conv_fold split_def comp_def)

lemma Sum_foldl: "Sum c = foldl fadd (Base c) (map snd (values_map c))"
  by (simp add: Sum_def reduce_foldl)

text \<open>
  C9. \<open>Normalize\<close> takes as total the fold of \<open>+\<close> from the seed \<open>0\<close> over the values of
  the stored entries alone (the base is not part of it), and then divides by that
  total the base and the value of every stored entry; the stored keys stay the
  same. A Go map holds each key once, which is the premise. On the counter with
  base \<open>0\<close> and the entries \<open>x: 1\<close>, \<open>y: 3\<close> the result has the entries \<open>x: 1/4\<close>,
  \<open>y: 3/4\<close> and the base \<open>0\<close>.
\<close>

theorem Normalize_divides:
  assumes "distinct (map fst (values_map c))"
  shows "reduce c (Finite 0) (\<lambda>a b. fadd a b) =
      foldl (\<lambda>a b. fadd a b) (Finite 0) (map snd (values_map c)) \<and>
    Base (Normalize c) = fdiv (Base c) (reduce c (Finite 0) (\<lambda>a b. fadd a b)) \<and>
    map_of (values_map (Normalize c)) =
      map_option (\<lambda>v. fdiv v (reduce c (Finite 0) (\<lambda>a b. fadd a b))) \<circ> map_of (values_map c) \<and>
    distinct (map fst (values_map (Normalize c)))"
proof (intro conjI)
  show "reduce c (Finite 0) (\<lambda>a b. fadd a b) =
      foldl (\<lambda>a b. fadd a b) (Finite 0) (map snd (values_map c))"
    by (rule reduce_foldl)
  show "Base (Normalize c) = fdiv (Base c) (reduce c (Finite 0) (\<lambda>a b. fadd a b))"
    by (simp add: Normalize_def Let_def Apply_pure fold_Set_entries_Base)
  show "map_of (values_map (Normalize c)) =
      map_option (\<lambda>v. fdiv v (reduce c (Finite 0) (\<lambda>a b. fadd a b))) \<circ> map_of (values_map c)"
    using assms
    by (auto simp: Normalize_def Let_def Apply_pure fold_Set_entries_map_of fun_eq_iff
        split: option.splits)
  show "distinct (map fst (values_map (Normalize c)))"
    using assms
    by (simp add: Normalize_def Let_def Apply_pure fold_Set_entries_distinct)
qed

theorem Normalize_divides_witness:
  "distinct (map fst (values_map
     \<lparr>values_map = [(''x'', Finite 1), (''y'', Finite 3)], Base = Finite 0\<rparr>)) \<and>
   reduce \<lparr>values_map = [(''x'', Finite 1), (''y'', Finite 3)], Base = Finite 0\<rparr>
     (Finite 0) (\<lambda>a b. fadd a b) = Finite 4 \<and>
   Normalize \<lparr>values_map = [(''x'', Finite 1), (''y'', Finite 3)], Base = Finite 0\<rparr> =
     \<lparr>values_map = [(''x'', Finite (1 / 4)), (''y'', Finite (3 / 4))], Base = Finite 0\<rparr> \<and>
   map_of (values_map
     (Normalize \<lparr>values_map = [(''x'', Finite 1), (''y'', Finite 3)], Base = Finite 0\<rparr>))
     ''y'' = Some (Finite (3 / 4))"
proof -
  let ?c = "\<lparr>values_map = [(''x'', Finite 1), (''y'', Finite 3)], Base = Finite 0\<rparr>"
  have d: "distinct (map fst (values_map ?c))"
    by simp
  have t: "reduce ?c (Finite 0) (\<lambda>a b. fadd a b) = Finite 4"
    by (simp add: reduce_def float_defs)
  have n: "Normalize ?c =
      \<lparr>values_map = [(''x'', Finite (1 / 4)), (''y'', Finite (3 / 4))], Base = Finite 0\<rparr>"
    by (simp add: Normalize_def reduce_def Apply_def Set_def AList.delete_eq float_defs)
  from Normalize_divides [OF d]
  have "map_of (values_map (Normalize ?c)) =
      map_option (\<lambda>v. fdiv v (reduce ?c (Finite 0) (\<lambda>a b. fadd a b))) \<circ> map_of (values_map ?c)"
    by blast
  then have "map_of (values_map (Normalize ?c)) =
      map_option (\<lambda>v. fdiv v (Finite 4)) \<circ> map_of (values_map ?c)"
    by (simp only: t)
  then have "map_of (values_map (Normalize ?c)) ''y'' = Some (fdiv (Finite 3) (Finite 4))"
    by simp
  then have "map_of (values_map (Normalize ?c)) ''y'' = Some (Finite (3 / 4))"
    by (simp add: float_defs)
  with d t n show ?thesis
    by (intro conjI)
qed

subsection \<open>\<open>ArgMax\<close>\<close>

lemma ArgMax_closure_nil: "ArgMax_closure key val (NilKey, m) = (val, (key, val))"
  by (simp add: ArgMax_closure_def)

lemma ArgMax_closure_addr:
  "ArgMax_closure key val (AddrOfK, m) =
     (val, (if fgt val m then (key, val) else (AddrOfK, m)))"
  by (simp add: ArgMax_closure_def)

lemma ArgMax_loop:
  "fold (\<lambda>(k, v) (c', s', kvar).
           case ArgMax_closure AddrOfK v s' of (r, s'') \<Rightarrow> (Set c' k r, s'', k))
     es (c0, (AddrOfK, m), kv) =
   (fold (\<lambda>(k, v) c'. Set c' k v) es c0,
    (AddrOfK, fold (\<lambda>(k, v) m. if fgt v m then v else m) es m),
    if es = [] then kv else fst (last es))"
  by (induction es arbitrary: c0 m kv) (auto simp: ArgMax_closure_addr split: prod.splits)

text \<open>
  What \<open>ArgMax\<close> returns on a counter with at least one entry: the value of the first
  entry unless a later one is strictly greater than the running value, and the key
  that the iteration variable holds after the loop, which is the key of the entry
  enumerated last.
\<close>

lemma ArgMax_nonempty:
  assumes "values_map c = (k1, v1) # es"
  shows "ArgMax c =
    (Inr (fst (last ((k1, v1) # es)), fold (\<lambda>(k, v) m. if fgt v m then v else m) es v1),
     fold (\<lambda>(k, v) c'. Set c' k v) ((k1, v1) # es) c)"
proof -
  have "Apply ArgMax_closure c (NilKey, Finite 0) =
    (fold (\<lambda>(k, v) c'. Set c' k v) ((k1, v1) # es) c,
     (AddrOfK, fold (\<lambda>(k, v) m. if fgt v m then v else m) es v1),
     fst (last ((k1, v1) # es)))"
    using assms
    by (simp add: Apply_def ArgMax_closure_nil ArgMax_loop)
  then show ?thesis
    by (simp add: ArgMax_def)
qed

lemma ArgMax_empty: "values_map c = [] \<Longrightarrow> fst (ArgMax c) = Inl NilDereference"
  by (simp add: ArgMax_def Apply_def ArgMax_closure_def)

text \<open>
  C3. The claim: on a counter that is not empty, \<open>ArgMax\<close> returns a stored entry,
  the first one enumerated unless a later one has a strictly greater value, so that
  the returned key is one whose stored value is the returned value. The closure
  keeps the pointer \<open>&k\<close> to the iteration variable, not the key, and \<open>ArgMax\<close> reads
  through it after the loop. On the counter with base \<open>0\<close> whose entries are
  enumerated as \<open>a: 5\<close>, \<open>b: 1\<close> it returns the key \<open>b\<close> with the value \<open>5\<close>, and the
  stored value of \<open>b\<close> is \<open>1\<close>.
\<close>

theorem ArgMax_returns_last_key:
  "fst (ArgMax \<lparr>values_map = [(''a'', Finite 5), (''b'', Finite 1)], Base = Finite 0\<rparr>) =
     Inr (''b'', Finite 5) \<and>
   Get \<lparr>values_map = [(''a'', Finite 5), (''b'', Finite 1)], Base = Finite 0\<rparr> ''b'' = Finite 1"
  by (simp add: ArgMax_def Apply_def ArgMax_closure_def Set_def Get_def float_defs)

text \<open>
  C4. The claim: on a counter with empty storage \<open>ArgMax\<close> fails with an explicit
  error of its own and does not dereference an absent key. In the source \<open>maxKey\<close>
  is still \<open>nil\<close> after \<open>Apply\<close> and \<open>*maxKey\<close> is evaluated all the same: on the
  counter that \<open>New(b)\<close> returns, the outcome is the panic of a nil dereference.
\<close>

theorem ArgMax_empty_nil_dereference: "fst (ArgMax (New b)) = Inl NilDereference"
  by (simp add: ArgMax_def Apply_def ArgMax_closure_def New_def)

end
